theory Spec2Isabelle
  imports Main
begin

section \<open>Configuration (internal/config/config.go)\<close>

text \<open>
  The \<^verbatim>\<open>Config\<close> struct. \<^verbatim>\<open>MaxFileSize\<close> is an \<^verbatim>\<open>int64\<close>; the program only
  stores and compares it, so no arithmetic can overflow and it is modelled as \<open>int\<close>.
\<close>

record Config =
  Files :: "string list"
  Exclude :: "string list"
  Prompt :: string
  MaxFileSize :: int
  Output :: string

definition DefaultConfig :: Config where
  "DefaultConfig =
     \<lparr>Files = [],
      Exclude = [''vendor/**'', ''node_modules/**'', ''.git/**''],
      Prompt = '''',
      MaxFileSize = 1048576,
      Output = ''''\<rparr>"

text \<open>
  \<^verbatim>\<open>Merge\<close> mutates the receiver; the model returns the updated configuration. The five
  \<^verbatim>\<open>if\<close> statements run in the order of the source.
\<close>

definition Merge :: "Config \<Rightarrow> string list \<Rightarrow> string list \<Rightarrow> string \<Rightarrow> string \<Rightarrow> int \<Rightarrow> Config" where
  "Merge c files exclude prompt output maxFileSize =
     (let c1 = (if length files > 0 then c\<lparr>Files := Files c @ files\<rparr> else c);
          c2 = (if length exclude > 0 then c1\<lparr>Exclude := Exclude c1 @ exclude\<rparr> else c1);
          c3 = (if prompt \<noteq> '''' then c2\<lparr>Prompt := prompt\<rparr> else c2);
          c4 = (if output \<noteq> '''' then c3\<lparr>Output := output\<rparr> else c3);
          c5 = (if maxFileSize > 0 then c4\<lparr>MaxFileSize := maxFileSize\<rparr> else c4)
      in c5)"

text \<open>
  \<^verbatim>\<open>LoadConfig\<close> talks to the operating system and to the YAML library. Both are outside
  the repository, so they are parameters of the model: \<open>os_Open\<close> is \<^verbatim>\<open>os.Open\<close>,
  \<open>os_IsNotExist\<close> is \<^verbatim>\<open>os.IsNotExist\<close>, \<open>io_ReadAll\<close> is \<^verbatim>\<open>io.ReadAll\<close> and
  \<open>yaml_Unmarshal\<close> is \<^verbatim>\<open>yaml.Unmarshal\<close>, which fills the configuration it is handed
  (here the defaults) or fails. Library errors are carried as their message text.
\<close>

type_synonym go_error = string

record 'f config_env =
  os_Open :: "string \<Rightarrow> go_error + 'f"
  os_IsNotExist :: "go_error \<Rightarrow> bool"
  io_ReadAll :: "'f \<Rightarrow> go_error + string"
  yaml_Unmarshal :: "string \<Rightarrow> Config \<Rightarrow> go_error + Config"

text \<open>
  \<^verbatim>\<open>fmt.Errorf("...: %w", err)\<close>: an error made of a fixed message and the wrapped error.
\<close>

datatype wrapped_error = Errorf string go_error

fun error_text :: "wrapped_error \<Rightarrow> string" where
  "error_text (Errorf msg err) = msg @ '': '' @ err"

definition LoadConfig :: "'f config_env \<Rightarrow> string \<Rightarrow> wrapped_error + Config" where
  "LoadConfig env path =
     (let config = DefaultConfig in
      case os_Open env path of
        Inl err \<Rightarrow>
          if os_IsNotExist env err then Inr config
          else Inl (Errorf ''failed to open config file'' err)
      | Inr file \<Rightarrow>
          (case io_ReadAll env file of
             Inl err \<Rightarrow> Inl (Errorf ''failed to read config file'' err)
           | Inr data \<Rightarrow>
               (case yaml_Unmarshal env data config of
                  Inl err \<Rightarrow> Inl (Errorf ''failed to parse config file'' err)
                | Inr config' \<Rightarrow> Inr config')))"

section \<open>The Go \<^verbatim>\<open>strings\<close> functions the selector calls\<close>

text \<open>
  Go strings are byte sequences, as \<open>string\<close> is here. These are the functions of package
  \<^verbatim>\<open>strings\<close> that the selector uses, written out on lists of characters.
\<close>

fun HasPrefix :: "string \<Rightarrow> string \<Rightarrow> bool" where
  "HasPrefix s [] = True"
| "HasPrefix [] (p # ps) = False"
| "HasPrefix (c # s) (p # ps) = (c = p \<and> HasPrefix s ps)"

definition HasSuffix :: "string \<Rightarrow> string \<Rightarrow> bool" where
  "HasSuffix s suffix = HasPrefix (rev s) (rev suffix)"

fun Contains :: "string \<Rightarrow> string \<Rightarrow> bool" where
  "Contains [] substr = (substr = [])"
| "Contains (c # s) substr = (HasPrefix (c # s) substr \<or> Contains s substr)"

definition TrimSuffix :: "string \<Rightarrow> string \<Rightarrow> string" where
  "TrimSuffix s suffix = (if HasSuffix s suffix then take (length s - length suffix) s else s)"

definition TrimPrefix :: "string \<Rightarrow> string \<Rightarrow> string" where
  "TrimPrefix s prefix = (if HasPrefix s prefix then drop (length prefix) s else s)"

text \<open>
  \<open>Cut s sep\<close> finds the first occurrence of \<open>sep\<close> in \<open>s\<close> and returns the text before
  and after it. \<open>SplitN2 s sep\<close> is \<^verbatim>\<open>strings.SplitN(s, sep, 2)\<close> for a non-empty separator
  (the selector only ever passes \<^verbatim>\<open>"**"\<close>): one part when \<open>sep\<close> does not occur, otherwise
  the two parts around its first occurrence.
\<close>

fun Cut :: "string \<Rightarrow> string \<Rightarrow> (string \<times> string) option" where
  "Cut [] sep = (if sep = [] then Some ([], []) else None)"
| "Cut (c # s) sep =
     (if HasPrefix (c # s) sep then Some ([], drop (length sep) (c # s))
      else (case Cut s sep of
              None \<Rightarrow> None
            | Some (before, after) \<Rightarrow> Some (c # before, after)))"

definition SplitN2 :: "string \<Rightarrow> string \<Rightarrow> string list" where
  "SplitN2 s sep = (case Cut s sep of None \<Rightarrow> [s] | Some (before, after) \<Rightarrow> [before, after])"

section \<open>File selection (internal/selector/selector.go)\<close>

record FileSelector =
  patterns :: "string list"
  excludes :: "string list"
  maxFileSize :: int

record FileInfo =
  Path :: string
  Size :: int

definition New :: "string list \<Rightarrow> string list \<Rightarrow> int \<Rightarrow> FileSelector" where
  "New ps es m = \<lparr>patterns = ps, excludes = es, maxFileSize = m\<rparr>"

subsection \<open>The file system and package \<^verbatim>\<open>path/filepath\<close>\<close>

text \<open>
  What \<^verbatim>\<open>os.Stat\<close> reports about a path, as far as the selector reads it:
  \<^verbatim>\<open>info.Mode().IsRegular()\<close> and \<^verbatim>\<open>info.Size()\<close>.
\<close>

record os_FileInfo =
  IsRegular :: bool
  StatSize :: int

text \<open>
  One invocation of the callback that \<^verbatim>\<open>filepath.WalkDir\<close> makes: either an entry
  (its path and \<^verbatim>\<open>d.IsDir()\<close>, with a nil error) or an error reported for a path.
\<close>

datatype walk_call = WalkEntry string bool | WalkError string go_error

text \<open>
  The selector reads the file system only through \<^verbatim>\<open>path/filepath\<close> and \<^verbatim>\<open>os\<close>. Their
  results depend on the platform, the working directory and the files on disk, so they
  are parameters of the model, one field per library function. \<open>filepath_WalkDir env root\<close>
  is the sequence of callback invocations that \<^verbatim>\<open>filepath.WalkDir(root, fn)\<close> makes when
  \<^verbatim>\<open>fn\<close> keeps returning nil.
\<close>

record fs_env =
  filepath_Glob :: "string \<Rightarrow> go_error + string list"
  filepath_Abs :: "string \<Rightarrow> go_error + string"
  filepath_Rel :: "string \<Rightarrow> string \<Rightarrow> go_error + string"
  filepath_Match :: "string \<Rightarrow> string \<Rightarrow> go_error + bool"
  filepath_Base :: "string \<Rightarrow> string"
  filepath_WalkDir :: "string \<Rightarrow> walk_call list"
  os_Stat :: "string \<Rightarrow> go_error + os_FileInfo"

text \<open>
  \<^verbatim>\<open>filepath.WalkDir\<close> calls \<^verbatim>\<open>fn\<close> for each entry in turn and stops at the first
  error \<^verbatim>\<open>fn\<close> returns, which it returns itself. The callback's captured variables
  are the state \<open>'s\<close>.
\<close>

fun WalkDir :: "walk_call list \<Rightarrow> (walk_call \<Rightarrow> 's \<Rightarrow> go_error option \<times> 's) \<Rightarrow> 's
    \<Rightarrow> go_error option \<times> 's" where
  "WalkDir [] fn s = (None, s)"
| "WalkDir (c # cs) fn s =
     (case fn c s of
        (Some err, s') \<Rightarrow> (Some err, s')
      | (None, s') \<Rightarrow> WalkDir cs fn s')"

subsection \<open>Include patterns\<close>

text \<open>
  \<open>appendAbs\<close> is the three-line idiom that occurs three times in the walk callback:
  \<^verbatim>\<open>absPath, err := filepath.Abs(path); if err == nil { matches = append(matches, absPath) }\<close>.
\<close>

definition appendAbs :: "fs_env \<Rightarrow> string \<Rightarrow> string list \<Rightarrow> string list" where
  "appendAbs env path matches =
     (case filepath_Abs env path of
        Inr absPath \<Rightarrow> matches @ [absPath]
      | Inl err \<Rightarrow> matches)"

text \<open>
  The function literal handed to \<^verbatim>\<open>filepath.WalkDir\<close> in \<^verbatim>\<open>expandRecursiveGlob\<close>. It
  captures \<open>prefix\<close> and \<open>suffix\<close> and appends to \<open>matches\<close>; every path through it
  returns nil.
\<close>

definition walkFn :: "fs_env \<Rightarrow> string \<Rightarrow> string \<Rightarrow> walk_call \<Rightarrow> string list
    \<Rightarrow> go_error option \<times> string list" where
  "walkFn env prefix suffix call matches =
     (case call of
        WalkError path err \<Rightarrow> (None, matches)
      | WalkEntry path isDir \<Rightarrow>
          if isDir then (None, matches)
          else if suffix = '''' then (None, appendAbs env path matches)
          else
            (case filepath_Rel env prefix path of
               Inl err \<Rightarrow> (None, matches)
             | Inr relPath \<Rightarrow>
                 (case filepath_Match env suffix relPath of
                    Inl err \<Rightarrow> (None, matches)
                  | Inr matched \<Rightarrow>
                      if matched then (None, appendAbs env path matches)
                      else
                        (case filepath_Match env suffix (filepath_Base env path) of
                           Inr True \<Rightarrow> (None, appendAbs env path matches)
                         | _ \<Rightarrow> (None, matches)))))"

text \<open>
  \<^verbatim>\<open>expandRecursiveGlob\<close> returns \<^verbatim>\<open>matches, err\<close>; its only caller discards the matches
  when \<^verbatim>\<open>err\<close> is not nil, so the error case is \<open>Inl\<close>.
\<close>

definition expandRecursiveGlob :: "fs_env \<Rightarrow> string \<Rightarrow> go_error + string list" where
  "expandRecursiveGlob env pattern =
     (let parts = SplitN2 pattern ''**'' in
      if length parts \<noteq> 2 then filepath_Glob env pattern
      else
        let prefix = TrimSuffix (parts ! 0) ''/'';
            suffix = TrimPrefix (parts ! 1) ''/'';
            prefix = (if prefix = '''' then ''.'' else prefix)
        in (case WalkDir (filepath_WalkDir env prefix) (walkFn env prefix suffix) [] of
              (None, matches) \<Rightarrow> Inr matches
            | (Some err, matches) \<Rightarrow> Inl err))"

text \<open>The loop of \<^verbatim>\<open>expandGlob\<close> that converts the matches to absolute paths.\<close>

fun absPaths :: "fs_env \<Rightarrow> string list \<Rightarrow> string list" where
  "absPaths env [] = []"
| "absPaths env (m # ms) =
     (case filepath_Abs env m of
        Inl err \<Rightarrow> absPaths env ms
      | Inr absPath \<Rightarrow> absPath # absPaths env ms)"

definition expandGlob :: "fs_env \<Rightarrow> string \<Rightarrow> go_error + string list" where
  "expandGlob env pattern =
     (if Contains pattern ''**'' then expandRecursiveGlob env pattern
      else (case filepath_Glob env pattern of
              Inl err \<Rightarrow> Inl err
            | Inr matches \<Rightarrow> Inr (absPaths env matches)))"

subsection \<open>Exclude patterns\<close>

text \<open>
  \<^verbatim>\<open>matched, _ := filepath.Match(...)\<close>: the error is dropped, and \<^verbatim>\<open>matched\<close> is false
  whenever \<^verbatim>\<open>filepath.Match\<close> returns an error.
\<close>

definition matched_ignoring_error :: "go_error + bool \<Rightarrow> bool" where
  "matched_ignoring_error r = (case r of Inr matched \<Rightarrow> matched | Inl err \<Rightarrow> False)"

definition matchesRecursiveExclude :: "fs_env \<Rightarrow> string \<Rightarrow> string \<Rightarrow> bool" where
  "matchesRecursiveExclude env path pattern =
     (let parts = SplitN2 pattern ''**'' in
      if length parts \<noteq> 2 then matched_ignoring_error (filepath_Match env pattern path)
      else
        let prefix = TrimSuffix (parts ! 0) ''/'';
            suffix = TrimPrefix (parts ! 1) ''/''
        in if prefix \<noteq> '''' \<and> \<not> Contains path prefix then False
           else if suffix \<noteq> '''' then
             matched_ignoring_error (filepath_Match env suffix (filepath_Base env path))
           else prefix = '''' \<or> Contains path prefix)"

text \<open>
  The loop of \<^verbatim>\<open>isExcluded\<close> over \<^verbatim>\<open>fs.excludes\<close>; \<^verbatim>\<open>err == nil && matched\<close> is
  \<open>Inr True\<close>.
\<close>

fun isExcluded_loop :: "fs_env \<Rightarrow> string list \<Rightarrow> string \<Rightarrow> bool" where
  "isExcluded_loop env [] path = False"
| "isExcluded_loop env (exclude # rest) path =
     (if Contains exclude ''**'' then
        (if matchesRecursiveExclude env path exclude then True
         else isExcluded_loop env rest path)
      else
        (if filepath_Match env exclude (filepath_Base env path) = Inr True then True
         else if filepath_Match env exclude path = Inr True then True
         else isExcluded_loop env rest path))"

definition isExcluded :: "fs_env \<Rightarrow> FileSelector \<Rightarrow> string \<Rightarrow> bool" where
  "isExcluded env fs path = isExcluded_loop env (excludes fs) path"

subsection \<open>SelectFiles\<close>

text \<open>
  The inner loop of \<^verbatim>\<open>SelectFiles\<close> over the matches of one pattern. The state is the
  slice \<open>files\<close> and the map \<open>processedFiles\<close>; a Go \<^verbatim>\<open>map[string]bool\<close> reads false
  at a missing key, so it is a function into \<open>bool\<close>. Each \<^verbatim>\<open>continue\<close> goes on with
  the rest of the matches.
\<close>

fun processMatches :: "fs_env \<Rightarrow> FileSelector \<Rightarrow> string list
    \<Rightarrow> FileInfo list \<times> (string \<Rightarrow> bool) \<Rightarrow> FileInfo list \<times> (string \<Rightarrow> bool)" where
  "processMatches env fs [] st = st"
| "processMatches env fs (match # rest) (files, processedFiles) =
     (if processedFiles match then processMatches env fs rest (files, processedFiles)
      else
        let processedFiles = processedFiles(match := True) in
        if isExcluded env fs match then processMatches env fs rest (files, processedFiles)
        else
          (case os_Stat env match of
             Inl err \<Rightarrow> processMatches env fs rest (files, processedFiles)
           | Inr info \<Rightarrow>
               if \<not> IsRegular info then processMatches env fs rest (files, processedFiles)
               else if maxFileSize fs > 0 \<and> StatSize info > maxFileSize fs
               then processMatches env fs rest (files, processedFiles)
               else processMatches env fs rest
                      (files @ [\<lparr>Path = match, Size = StatSize info\<rparr>], processedFiles)))"

text \<open>
  The outer loop over the patterns. An error of \<^verbatim>\<open>expandGlob\<close> returns at once with
  \<^verbatim>\<open>nil, fmt.Errorf("failed to expand pattern '%s': %w", pattern, err)\<close>.
\<close>

definition expand_failed :: "string \<Rightarrow> go_error \<Rightarrow> wrapped_error" where
  "expand_failed pattern err =
     Errorf (''failed to expand pattern '' @ [CHR 0x27] @ pattern @ [CHR 0x27]) err"

fun selectLoop :: "fs_env \<Rightarrow> FileSelector \<Rightarrow> string list
    \<Rightarrow> FileInfo list \<times> (string \<Rightarrow> bool) \<Rightarrow> wrapped_error + FileInfo list" where
  "selectLoop env fs [] st = Inr (fst st)"
| "selectLoop env fs (pattern # rest) st =
     (case expandGlob env pattern of
        Inl err \<Rightarrow> Inl (expand_failed pattern err)
      | Inr matches \<Rightarrow> selectLoop env fs rest (processMatches env fs matches st))"

definition effective_patterns :: "FileSelector \<Rightarrow> string list" where
  "effective_patterns fs = (if length (patterns fs) = 0 then [''*''] else patterns fs)"

definition SelectFiles :: "fs_env \<Rightarrow> FileSelector \<Rightarrow> wrapped_error + FileInfo list" where
  "SelectFiles env fs = selectLoop env fs (effective_patterns fs) ([], \<lambda>p. False)"

section \<open>What the specification calls things\<close>

text \<open>
  The candidates of a run: the matches of every pattern, in pattern order, one after the
  other (a pattern whose expansion fails contributes none).
\<close>

definition candidates :: "fs_env \<Rightarrow> string list \<Rightarrow> string list" where
  "candidates env pats =
     concat (map (\<lambda>p. case expandGlob env p of Inr ms \<Rightarrow> ms | Inl err \<Rightarrow> []) pats)"

text \<open>
  Step 3 of the specification's algorithm: one ordered sequence, skipping any path
  already seen, so that the first occurrence wins.
\<close>

definition remember :: "'a list \<Rightarrow> 'a \<Rightarrow> 'a list" where
  "remember acc x = (if x \<in> set acc then acc else acc @ [x])"

definition first_occurrences :: "'a list \<Rightarrow> 'a list" where
  "first_occurrences xs = foldl remember [] xs"

text \<open>
  Step 4 of the specification's algorithm for one candidate: dropped when an exclude
  pattern matches, when the stat fails, when it is not a regular file, or when a positive
  \<open>maxFileSize\<close> is exceeded; otherwise emitted with its stat size.
\<close>

definition admit :: "fs_env \<Rightarrow> FileSelector \<Rightarrow> string \<Rightarrow> FileInfo option" where
  "admit env fs p =
     (if isExcluded env fs p then None
      else (case os_Stat env p of
              Inl err \<Rightarrow> None
            | Inr info \<Rightarrow>
                if \<not> IsRegular info then None
                else if maxFileSize fs > 0 \<and> StatSize info > maxFileSize fs then None
                else Some \<lparr>Path = p, Size = StatSize info\<rparr>))"

text \<open>
  Section 4.1.2 of the specification, for one exclude pattern: with \<^verbatim>\<open>**\<close>, the trimmed
  prefix must occur in the path (when not empty) and the trimmed suffix must match the
  base name (when not empty); without \<^verbatim>\<open>**\<close>, the base name or the full path must match.
\<close>

definition exclude_matches :: "fs_env \<Rightarrow> string \<Rightarrow> string \<Rightarrow> bool" where
  "exclude_matches env exclude path =
     (case Cut exclude ''**'' of
        Some (before, after) \<Rightarrow>
          (let prefix = TrimSuffix before ''/''; suffix = TrimPrefix after ''/''
           in (prefix = '''' \<or> Contains path prefix) \<and>
              (suffix = '''' \<or> filepath_Match env suffix (filepath_Base env path) = Inr True))
      | None \<Rightarrow>
          filepath_Match env exclude (filepath_Base env path) = Inr True \<or>
          filepath_Match env exclude path = Inr True)"

text \<open>
  Section 4.1.1 of the specification: the files of a walk (directories and failed entries
  left out), and the test a walked file must pass for a given walk root and suffix.
\<close>

fun walked_files :: "walk_call list \<Rightarrow> string list" where
  "walked_files [] = []"
| "walked_files (WalkEntry path isDir # cs) =
     (if isDir then walked_files cs else path # walked_files cs)"
| "walked_files (WalkError path err # cs) = walked_files cs"

definition suffix_accepts :: "fs_env \<Rightarrow> string \<Rightarrow> string \<Rightarrow> string \<Rightarrow> bool" where
  "suffix_accepts env root suffix path =
     (suffix = '''' \<or>
      (case filepath_Rel env root path of
         Inr relPath \<Rightarrow> filepath_Match env suffix relPath = Inr True
       | Inl err \<Rightarrow> False) \<or>
      filepath_Match env suffix (filepath_Base env path) = Inr True)"

section \<open>An example environment\<close>

text \<open>
  A small file system to run the definitions on: the working directory \<^verbatim>\<open>/w\<close> holds
  \<^verbatim>\<open>a.go\<close> (100 bytes), \<^verbatim>\<open>b.txt\<close> (50 bytes) and the directory \<^verbatim>\<open>sub\<close> with
  \<^verbatim>\<open>sub/c.go\<close> (4,000,000 bytes). Its matcher knows \<^verbatim>\<open>*\<close> and \<^verbatim>\<open>?\<close>, neither of which
  crosses a separator, and reports every pattern with a bracket as malformed.
\<close>

fun wild_match :: "string \<Rightarrow> string \<Rightarrow> bool" where
  "wild_match [] n = (n = [])"
| "wild_match (c # p) n =
     (if c = CHR ''*'' then
        (wild_match p n \<or>
         (case n of [] \<Rightarrow> False | d # m \<Rightarrow> d \<noteq> CHR ''/'' \<and> wild_match (c # p) m))
      else
        (case n of
           [] \<Rightarrow> False
         | d # m \<Rightarrow> ((c = CHR ''?'' \<and> d \<noteq> CHR ''/'') \<or> c = d) \<and> wild_match p m))"

definition demo_Match :: "string \<Rightarrow> string \<Rightarrow> go_error + bool" where
  "demo_Match p n =
     (if CHR ''['' \<in> set p then Inl ''syntax error in pattern'' else Inr (wild_match p n))"

definition demo_Glob :: "string \<Rightarrow> go_error + string list" where
  "demo_Glob p =
     (if CHR ''['' \<in> set p then Inl ''syntax error in pattern''
      else Inr (filter (wild_match p) [''a.go'', ''b.txt'', ''sub'', ''sub/c.go'']))"

definition demo_Abs :: "string \<Rightarrow> go_error + string" where
  "demo_Abs p = Inr (if HasPrefix p ''/'' then p else ''/w/'' @ p)"

definition demo_Rel :: "string \<Rightarrow> string \<Rightarrow> go_error + string" where
  "demo_Rel base targ =
     (if base = ''.'' then Inr targ
      else if HasPrefix targ (base @ ''/'') then Inr (drop (length base + 1) targ)
      else Inl ''Rel: can not make the path relative'')"

definition demo_Base :: "string \<Rightarrow> string" where
  "demo_Base p = rev (takeWhile (\<lambda>c. c \<noteq> CHR ''/'') (rev p))"

definition demo_WalkDir :: "string \<Rightarrow> walk_call list" where
  "demo_WalkDir root =
     (if root = ''.'' then
        [WalkEntry ''.'' True, WalkEntry ''a.go'' False, WalkEntry ''b.txt'' False,
         WalkEntry ''sub'' True, WalkEntry ''sub/c.go'' False]
      else if root = ''sub'' then [WalkEntry ''sub'' True, WalkEntry ''sub/c.go'' False]
      else [WalkError root ''lstat: no such file or directory''])"

definition demo_Stat :: "string \<Rightarrow> go_error + os_FileInfo" where
  "demo_Stat p =
     (if p = ''/w/a.go'' then Inr \<lparr>IsRegular = True, StatSize = 100\<rparr>
      else if p = ''/w/b.txt'' then Inr \<lparr>IsRegular = True, StatSize = 50\<rparr>
      else if p = ''/w/sub'' then Inr \<lparr>IsRegular = False, StatSize = 4096\<rparr>
      else if p = ''/w/sub/c.go'' then Inr \<lparr>IsRegular = True, StatSize = 4000000\<rparr>
      else Inl ''stat: no such file or directory'')"

definition demo_env :: fs_env where
  "demo_env =
     \<lparr>filepath_Glob = demo_Glob, filepath_Abs = demo_Abs, filepath_Rel = demo_Rel,
      filepath_Match = demo_Match, filepath_Base = demo_Base,
      filepath_WalkDir = demo_WalkDir, os_Stat = demo_Stat\<rparr>"

text \<open>
  Five configuration paths: a missing one, one that may not be opened, a directory (it
  opens, reading it fails), a file that is not YAML, and a good file that sets
  \<^verbatim>\<open>max_file_size\<close>. File handles are the paths themselves.
\<close>

definition demo_config_env :: "string config_env" where
  "demo_config_env =
     \<lparr>os_Open = (\<lambda>p. if p \<in> {''dir'', ''bad.yaml'', ''good.yaml''} then Inr p
                     else if p = ''secret.yaml'' then Inl ''permission denied''
                     else Inl ''no such file or directory''),
      os_IsNotExist = (\<lambda>e. e = ''no such file or directory''),
      io_ReadAll = (\<lambda>f. if f = ''dir'' then Inl ''is a directory''
                        else if f = ''bad.yaml'' then Inr ''{''
                        else Inr ''max_file_size: 5''),
      yaml_Unmarshal = (\<lambda>data c. if data = ''max_file_size: 5''
                                 then Inr (c\<lparr>MaxFileSize := 5\<rparr>)
                                 else Inl ''yaml: did not find expected node content'')\<rparr>"

section \<open>Facts about the string functions\<close>

text \<open>
  \<open>HasPrefix\<close> and \<open>Contains\<close> are the plain prefix and substring relations, and \<open>Cut\<close>
  splits at the first occurrence of the separator: no occurrence starts further left.
  \<open>TrimSuffix\<close> and \<open>TrimPrefix\<close> remove the given text from the end or the start when it
  is there and leave the string alone otherwise.
\<close>

lemma HasPrefix_iff: "HasPrefix s p \<longleftrightarrow> (\<exists>t. s = p @ t)"
  by (induction s p rule: HasPrefix.induct) auto

lemma Contains_iff: "Contains s sub \<longleftrightarrow> (\<exists>a b. s = a @ sub @ b)"
proof (induction s)
  case Nil
  then show ?case by auto
next
  case (Cons c s)
  show ?case
  proof
    assume "Contains (c # s) sub"
    then consider "HasPrefix (c # s) sub" | "Contains s sub" by auto
    then show "\<exists>a b. c # s = a @ sub @ b"
    proof cases
      case 1
      then obtain t where "c # s = sub @ t" by (auto simp: HasPrefix_iff)
      then have "c # s = [] @ sub @ t" by simp
      then show ?thesis by blast
    next
      case 2
      then obtain a b where "s = a @ sub @ b" using Cons.IH by blast
      then have "c # s = (c # a) @ sub @ b" by simp
      then show ?thesis by blast
    qed
  next
    assume "\<exists>a b. c # s = a @ sub @ b"
    then obtain a b where ab: "c # s = a @ sub @ b" by blast
    show "Contains (c # s) sub"
    proof (cases a)
      case Nil
      with ab have "HasPrefix (c # s) sub" by (simp add: HasPrefix_iff)
      then show ?thesis by simp
    next
      case (Cons d a')
      with ab have "s = a' @ sub @ b" by simp
      then have "Contains s sub" using Cons.IH by blast
      then show ?thesis by simp
    qed
  qed
qed

lemma Cut_Some_decomp: "Cut s sep = Some (before, after) \<Longrightarrow> s = before @ sep @ after"
proof (induction s arbitrary: before)
  case Nil
  then show ?case by (auto split: if_splits)
next
  case (Cons c s)
  show ?case
  proof (cases "HasPrefix (c # s) sep")
    case True
    then obtain t where t: "c # s = sep @ t" by (auto simp: HasPrefix_iff)
    from True Cons.prems have "before = []" "after = drop (length sep) (c # s)" by auto
    with t show ?thesis by simp
  next
    case False
    with Cons.prems obtain b' where "Cut s sep = Some (b', after)" "before = c # b'"
      by (auto split: option.splits)
    with Cons.IH show ?thesis by simp
  qed
qed

lemma Cut_None_iff: "Cut s sep = None \<longleftrightarrow> \<not> Contains s sep"
  by (induction s) (auto split: option.splits)

text \<open>first occurrence\<close>

lemma Cut_first:
  "Cut s sep = Some (before, after) \<Longrightarrow> i < length before \<Longrightarrow> \<not> HasPrefix (drop i s) sep"
proof (induction s arbitrary: before i)
  case Nil
  then show ?case by (auto split: if_splits)
next
  case (Cons c s)
  show ?case
  proof (cases "HasPrefix (c # s) sep")
    case True
    with Cons.prems show ?thesis by auto
  next
    case False
    with Cons.prems obtain b' where b': "Cut s sep = Some (b', after)" "before = c # b'"
      by (auto split: option.splits)
    show ?thesis
    proof (cases i)
      case 0
      with False show ?thesis by simp
    next
      case (Suc j)
      with Cons.prems b' have "j < length b'" by simp
      with Cons.IH b' have "\<not> HasPrefix (drop j s) sep" by blast
      with Suc show ?thesis by simp
    qed
  qed
qed

lemma Cut_intro:
  "(\<forall>i < length before. \<not> HasPrefix (drop i (before @ sep @ after)) sep)
     \<Longrightarrow> Cut (before @ sep @ after) sep = Some (before, after)"
proof (induction before)
  case Nil
  have "HasPrefix (sep @ after) sep" by (simp add: HasPrefix_iff)
  then have "Cut (sep @ after) sep = Some ([], drop (length sep) (sep @ after))"
    by (cases "sep @ after") auto
  then show ?case by simp
next
  case (Cons c b)
  from Cons.prems have "\<not> HasPrefix (drop 0 ((c # b) @ sep @ after)) sep" by blast
  then have nh: "\<not> HasPrefix (c # b @ sep @ after) sep" by simp
  have "\<forall>i < length b. \<not> HasPrefix (drop i (b @ sep @ after)) sep"
  proof (intro allI impI)
    fix i assume "i < length b"
    then have "Suc i < length (c # b)" by simp
    with Cons.prems have "\<not> HasPrefix (drop (Suc i) ((c # b) @ sep @ after)) sep" by blast
    then show "\<not> HasPrefix (drop i (b @ sep @ after)) sep" by simp
  qed
  with Cons.IH have "Cut (b @ sep @ after) sep = Some (b, after)" by blast
  with nh show ?case by simp
qed

lemma SplitN2_Contains:
  "Contains s sep \<Longrightarrow> \<exists>before after. Cut s sep = Some (before, after) \<and> SplitN2 s sep = [before, after]"
  using Cut_None_iff[of s sep] by (cases "Cut s sep") (auto simp: SplitN2_def)

lemma Cut_first_occurrence:
  assumes "pattern = before @ sep @ after"
    and "\<forall>u v. pattern = u @ sep @ v \<longrightarrow> length before \<le> length u"
  shows "Cut pattern sep = Some (before, after)"
proof -
  have "\<forall>i < length before. \<not> HasPrefix (drop i (before @ sep @ after)) sep"
  proof (intro allI impI notI)
    fix i assume i: "i < length before" and h: "HasPrefix (drop i (before @ sep @ after)) sep"
    from h obtain t where "drop i pattern = sep @ t" using assms(1) by (auto simp: HasPrefix_iff)
    then have "pattern = take i pattern @ sep @ t" by (metis append_take_drop_id)
    with assms(2) have "length before \<le> length (take i pattern)" by blast
    with i show False by simp
  qed
  then show ?thesis using assms(1) Cut_intro by blast
qed

lemma Cut_is_first:
  assumes "Cut pattern sep = Some (before, after)"
  shows "\<forall>u v. pattern = u @ sep @ v \<longrightarrow> length before \<le> length u"
proof (intro allI impI)
  fix u v assume p: "pattern = u @ sep @ v"
  show "length before \<le> length u"
  proof (rule ccontr)
    assume "\<not> length before \<le> length u"
    then have "length u < length before" by simp
    with Cut_first[OF assms] have "\<not> HasPrefix (drop (length u) pattern) sep" by blast
    with p show False by (simp add: HasPrefix_iff)
  qed
qed

lemma first_occurrence_exists:
  assumes "Contains pattern sep"
  shows "\<exists>before after. pattern = before @ sep @ after \<and>
           (\<forall>u v. pattern = u @ sep @ v \<longrightarrow> length before \<le> length u)"
proof -
  from SplitN2_Contains[OF assms] obtain before after where
    c: "Cut pattern sep = Some (before, after)" by blast
  from Cut_Some_decomp[OF c] Cut_is_first[OF c] show ?thesis by blast
qed

lemma TrimSuffix_cases:
  "TrimSuffix (s @ suf) suf = s" "(\<And>t. s \<noteq> t @ suf) \<Longrightarrow> TrimSuffix s suf = s"
proof -
  show "TrimSuffix (s @ suf) suf = s" by (simp add: TrimSuffix_def HasSuffix_def HasPrefix_iff)
  assume a: "\<And>t. s \<noteq> t @ suf"
  have "\<not> HasSuffix s suf"
  proof
    assume "HasSuffix s suf"
    then obtain t where "rev s = rev suf @ t" by (auto simp: HasSuffix_def HasPrefix_iff)
    then have "s = rev t @ suf" by (metis rev_append rev_rev_ident)
    with a show False by blast
  qed
  then show "TrimSuffix s suf = s" by (simp add: TrimSuffix_def)
qed

lemma TrimPrefix_cases:
  "TrimPrefix (pre @ s) pre = s" "(\<And>t. s \<noteq> pre @ t) \<Longrightarrow> TrimPrefix s pre = s"
  by (auto simp: TrimPrefix_def HasPrefix_iff)

section \<open>Facts about the expansion of include patterns\<close>

text \<open>
  The walk callback never returns an error and only ever appends to \<open>matches\<close>, so a walk
  ends with nil and the matches of its entries one after the other. Hence the expansion
  of a pattern with \<^verbatim>\<open>**\<close> never fails, and \<^verbatim>\<open>expandGlob\<close> fails exactly when
  \<^verbatim>\<open>filepath.Glob\<close> fails on a pattern without \<^verbatim>\<open>**\<close>.
\<close>

lemma walkFn_None: "fst (walkFn env prefix suffix call matches) = None"
  by (auto simp: walkFn_def split: walk_call.splits sum.splits bool.splits)

lemma appendAbs_append: "appendAbs env path matches = matches @ appendAbs env path []"
  by (simp add: appendAbs_def split: sum.splits)

lemma walkFn_append:
  "snd (walkFn env prefix suffix call matches) = matches @ snd (walkFn env prefix suffix call [])"
  using appendAbs_append[of env _ matches]
  by (auto simp: walkFn_def split: walk_call.splits sum.splits bool.splits)

lemma WalkDir_walkFn:
  "WalkDir calls (walkFn env prefix suffix) matches =
     (None, matches @ concat (map (\<lambda>c. snd (walkFn env prefix suffix c [])) calls))"
proof (induction calls arbitrary: matches)
  case Nil
  then show ?case by simp
next
  case (Cons c cs)
  obtain e m where r: "walkFn env prefix suffix c matches = (e, m)" by (cases "walkFn env prefix suffix c matches")
  with walkFn_None[of env prefix suffix c matches] have e: "e = None" by simp
  from r walkFn_append[of env prefix suffix c matches]
  have m: "m = matches @ snd (walkFn env prefix suffix c [])" by simp
  show ?case using Cons.IH[of m] by (simp add: r e m)
qed

lemma expandRecursiveGlob_never_fails:
  assumes "Contains pattern ''**''"
  shows "\<exists>ms. expandRecursiveGlob env pattern = Inr ms"
proof -
  from SplitN2_Contains[OF assms] obtain b a where "SplitN2 pattern ''**'' = [b, a]" by blast
  then show ?thesis by (simp add: expandRecursiveGlob_def Let_def WalkDir_walkFn)
qed

lemma expandGlob_fails_iff:
  "(\<exists>err. expandGlob env pattern = Inl err) \<longleftrightarrow>
   (\<not> Contains pattern ''**'' \<and> (\<exists>err. filepath_Glob env pattern = Inl err))"
  using expandRecursiveGlob_never_fails[of pattern env]
  by (auto simp: expandGlob_def split: sum.splits)

text \<open>
  Under three assumptions about the path library (see the theorem below), the matches of
  a walk are the accepted files of the walk, made absolute.
\<close>

lemma walk_emits:
  assumes "\<forall>path \<in> set (walked_files calls). \<exists>a. filepath_Abs env path = Inr a"
    and "suffix \<noteq> '''' \<longrightarrow> (\<forall>path \<in> set (walked_files calls). \<exists>r. filepath_Rel env root path = Inr r)"
    and m: "\<forall>n n'. filepath_Match env suffix n = Inr True \<longrightarrow> (\<forall>e. filepath_Match env suffix n' \<noteq> Inl e)"
  shows "concat (map (\<lambda>c. snd (walkFn env root suffix c [])) calls) =
         map (\<lambda>path. projr (filepath_Abs env path))
           (filter (suffix_accepts env root suffix) (walked_files calls))"
  using assms(1,2)
proof (induction calls)
  case Nil
  then show ?case by simp
next
  case (Cons c cs)
  have rest: "concat (map (\<lambda>c. snd (walkFn env root suffix c [])) cs) =
         map (\<lambda>path. projr (filepath_Abs env path))
           (filter (suffix_accepts env root suffix) (walked_files cs))"
    using Cons by (cases c) (auto split: if_splits)
  have this_one: "snd (walkFn env root suffix c []) =
         map (\<lambda>path. projr (filepath_Abs env path))
           (filter (suffix_accepts env root suffix) (walked_files [c]))"
  proof (cases c)
    case (WalkError path err)
    then show ?thesis by (simp add: walkFn_def)
  next
    case (WalkEntry path isDir)
    show ?thesis
    proof (cases isDir)
      case True
      with WalkEntry show ?thesis by (simp add: walkFn_def)
    next
      case False
      with WalkEntry Cons.prems(1) obtain a where a: "filepath_Abs env path = Inr a" by auto
      show ?thesis
      proof (cases "suffix = ''''")
        case True
        with WalkEntry False a show ?thesis
          by (simp add: walkFn_def appendAbs_def suffix_accepts_def)
      next
        case ne: False
        with WalkEntry False Cons.prems(2) obtain r where r: "filepath_Rel env root path = Inr r" by auto
        show ?thesis
        proof (cases "filepath_Match env suffix r")
          case (Inl e)
          with m have "filepath_Match env suffix (filepath_Base env path) \<noteq> Inr True" by blast
          with Inl WalkEntry False a ne r show ?thesis
            by (simp add: walkFn_def appendAbs_def suffix_accepts_def)
        next
          case (Inr matched)
          with WalkEntry False a ne r show ?thesis
            by (auto simp: walkFn_def appendAbs_def suffix_accepts_def split: sum.splits bool.splits)
        qed
      qed
    qed
  qed
  have wf: "walked_files (c # cs) = walked_files [c] @ walked_files cs"
    by (cases c) auto
  show ?case unfolding wf using rest this_one by simp
qed

section \<open>Facts about exclusion\<close>

text \<open>
  The loop of \<^verbatim>\<open>isExcluded\<close> returns true exactly when some exclude pattern matches in the
  sense of section 4.1.2 of the specification.
\<close>

lemma matched_ignoring_error_iff: "matched_ignoring_error r \<longleftrightarrow> r = Inr True"
  by (cases r) (auto simp: matched_ignoring_error_def)

lemma matchesRecursiveExclude_Cut:
  assumes "Cut pattern ''**'' = Some (before, after)"
  shows "matchesRecursiveExclude env path pattern \<longleftrightarrow>
         (TrimSuffix before ''/'' = '''' \<or> Contains path (TrimSuffix before ''/'')) \<and>
         (TrimPrefix after ''/'' = '''' \<or>
          filepath_Match env (TrimPrefix after ''/'') (filepath_Base env path) = Inr True)"
proof -
  from assms have "SplitN2 pattern ''**'' = [before, after]" by (simp add: SplitN2_def)
  then show ?thesis
    by (auto simp: matchesRecursiveExclude_def Let_def matched_ignoring_error_iff)
qed

lemma exclude_step_iff:
  "(if Contains exclude ''**'' then matchesRecursiveExclude env path exclude
    else (filepath_Match env exclude (filepath_Base env path) = Inr True \<or>
          filepath_Match env exclude path = Inr True))
   \<longleftrightarrow> exclude_matches env exclude path"
proof (cases "Cut exclude ''**''")
  case None
  then have "\<not> Contains exclude ''**''" using Cut_None_iff by blast
  with None show ?thesis by (simp add: exclude_matches_def)
next
  case (Some ba)
  obtain b a where ba: "ba = (b, a)" by (cases ba)
  from Some have "Contains exclude ''**''" using Cut_None_iff[of exclude "''**''"] by auto
  with Some ba matchesRecursiveExclude_Cut[of exclude b a env path] show ?thesis
    by (simp add: exclude_matches_def Let_def)
qed

lemma isExcluded_loop_iff:
  "isExcluded_loop env es path \<longleftrightarrow> (\<exists>e \<in> set es. exclude_matches env e path)"
proof (induction es)
  case Nil
  then show ?case by simp
next
  case (Cons e es)
  have "isExcluded_loop env (e # es) path \<longleftrightarrow>
        (if Contains e ''**'' then matchesRecursiveExclude env path e
         else (filepath_Match env e (filepath_Base env path) = Inr True \<or>
               filepath_Match env e path = Inr True)) \<or> isExcluded_loop env es path"
    by simp
  then show ?case using Cons.IH exclude_step_iff[of e env path] by simp
qed

lemma isExcluded_iff:
  "isExcluded env fs path \<longleftrightarrow> (\<exists>e \<in> set (excludes fs). exclude_matches env e path)"
  by (simp add: isExcluded_def isExcluded_loop_iff)

section \<open>Facts about the selection loops\<close>

text \<open>
  The invariant of both loops: \<open>processedFiles\<close> is true exactly on the paths seen so far,
  kept in order of first appearance in \<open>acc\<close>, and \<open>files\<close> holds the entries of those
  among them that step 4 admits. So a run that returns files returns the admitted first
  occurrences of its candidates.
\<close>

lemma first_occurrences_foldl: "first_occurrences xs = foldl remember [] xs"
  by (simp add: first_occurrences_def)

lemma map_filter_snoc:
  "List.map_filter f (xs @ [x]) = List.map_filter f xs @ (case f x of None \<Rightarrow> [] | Some y \<Rightarrow> [y])"
  by (simp add: List.map_filter_def split: option.splits)

lemma set_map_filter: "set (List.map_filter f xs) = {y. \<exists>x \<in> set xs. f x = Some y}"
  by (induction xs) (auto simp: map_filter_simps split: option.splits)

lemma processMatches_inv:
  assumes "\<forall>p. processed p \<longleftrightarrow> p \<in> set acc"
    and "files = List.map_filter (admit env fs) acc"
  shows "\<exists>processed'. processMatches env fs ms (files, processed) =
           (List.map_filter (admit env fs) (foldl remember acc ms), processed') \<and>
           (\<forall>p. processed' p \<longleftrightarrow> p \<in> set (foldl remember acc ms))"
  using assms
proof (induction ms arbitrary: files processed acc)
  case Nil
  then show ?case by simp
next
  case (Cons m ms)
  show ?case
  proof (cases "processed m")
    case True
    with Cons.prems have "remember acc m = acc" by (simp add: remember_def)
    then have fl: "foldl remember acc (m # ms) = foldl remember acc ms" by simp
    have step: "processMatches env fs (m # ms) (files, processed) =
                processMatches env fs ms (files, processed)"
      using True by simp
    show ?thesis unfolding step fl using Cons.IH[OF Cons.prems] .
  next
    case False
    with Cons.prems have s: "remember acc m = acc @ [m]" by (simp add: remember_def)
    let ?pr = "processed(m := True)"
    have p: "\<forall>p. ?pr p \<longleftrightarrow> p \<in> set (acc @ [m])" using Cons.prems(1) by auto
    have fl: "foldl remember acc (m # ms) = foldl remember (acc @ [m]) ms" using s by simp
    show ?thesis
    proof (cases "admit env fs m")
      case None
      then have f: "files = List.map_filter (admit env fs) (acc @ [m])"
        using Cons.prems(2) by (simp add: map_filter_snoc)
      from None have step: "processMatches env fs (m # ms) (files, processed) =
            processMatches env fs ms (files, ?pr)"
        using False by (auto simp: admit_def Let_def split: sum.splits if_splits)
      show ?thesis unfolding step fl using Cons.IH[OF p f] .
    next
      case (Some i)
      then have f: "files @ [i] = List.map_filter (admit env fs) (acc @ [m])"
        using Cons.prems(2) by (simp add: map_filter_snoc)
      from Some have step: "processMatches env fs (m # ms) (files, processed) =
            processMatches env fs ms (files @ [i], ?pr)"
        using False by (auto simp: admit_def Let_def split: sum.splits if_splits)
      show ?thesis unfolding step fl using Cons.IH[OF p f] .
    qed
  qed
qed

lemma selectLoop_inv:
  assumes "\<forall>p. processed p \<longleftrightarrow> p \<in> set acc"
    and "files = List.map_filter (admit env fs) acc"
    and "selectLoop env fs pats (files, processed) = Inr out"
  shows "out = List.map_filter (admit env fs) (foldl remember acc (candidates env pats))"
  using assms
proof (induction pats arbitrary: files processed acc)
  case Nil
  then show ?case by (simp add: candidates_def)
next
  case (Cons pat pats)
  from Cons.prems(3) obtain ms where ms: "expandGlob env pat = Inr ms"
    by (cases "expandGlob env pat") auto
  from processMatches_inv[OF Cons.prems(1,2), of ms] obtain processed' where
    pm: "processMatches env fs ms (files, processed) =
           (List.map_filter (admit env fs) (foldl remember acc ms), processed')"
    and inv: "\<forall>p. processed' p \<longleftrightarrow> p \<in> set (foldl remember acc ms)" by blast
  from Cons.prems(3) ms pm have
    "selectLoop env fs pats (List.map_filter (admit env fs) (foldl remember acc ms), processed') = Inr out"
    by simp
  from Cons.IH[OF inv refl this] show ?case
    using ms by (simp add: candidates_def)
qed

lemma SelectFiles_result:
  assumes "SelectFiles env fs = Inr out"
  shows "out = List.map_filter (admit env fs)
                 (first_occurrences (candidates env (effective_patterns fs)))"
proof -
  have "\<forall>p. (\<lambda>p. False) p \<longleftrightarrow> p \<in> set ([]::string list)" by simp
  moreover have "[] = List.map_filter (admit env fs) []" by (simp add: List.map_filter_def)
  ultimately show ?thesis
    using assms selectLoop_inv[of "\<lambda>p. False" "[]" "[]" env fs "effective_patterns fs" out]
    by (simp add: SelectFiles_def first_occurrences_foldl)
qed

lemma foldl_remember_props:
  "distinct acc \<Longrightarrow> distinct (foldl remember acc xs) \<and> set (foldl remember acc xs) = set acc \<union> set xs
     \<and> (\<exists>ys. foldl remember acc xs = acc @ ys)"
proof (induction xs arbitrary: acc)
  case Nil
  then show ?case by simp
next
  case (Cons x xs)
  have d: "distinct (remember acc x)" using Cons.prems by (simp add: remember_def)
  have s: "set (remember acc x) = insert x (set acc)" by (auto simp: remember_def)
  have e: "\<exists>zs. remember acc x = acc @ zs" by (simp add: remember_def)
  from Cons.IH[OF d] s e show ?case by auto
qed

lemma distinct_first_occurrences: "distinct (first_occurrences xs)"
  using foldl_remember_props[of "[]" xs] by (simp add: first_occurrences_foldl)

lemma set_first_occurrences: "set (first_occurrences xs) = set xs"
  using foldl_remember_props[of "[]" xs] by (simp add: first_occurrences_foldl)

lemma first_occurrences_at_first_match:
  assumes "x \<notin> set xs"
  shows "\<exists>zs. first_occurrences (xs @ x # ys) = first_occurrences xs @ x # zs"
proof -
  have "x \<notin> set (foldl remember [] xs)" using assms foldl_remember_props[of "[]" xs] by simp
  then have "remember (foldl remember [] xs) x = foldl remember [] xs @ [x]" by (simp add: remember_def)
  then have "foldl remember [] (xs @ x # ys) = foldl remember (foldl remember [] xs @ [x]) ys" by simp
  moreover have "distinct (foldl remember [] xs @ [x])"
    using \<open>x \<notin> set (foldl remember [] xs)\<close> foldl_remember_props[of "[]" xs] by simp
  ultimately obtain zs where "foldl remember [] (xs @ x # ys) = (foldl remember [] xs @ [x]) @ zs"
    using foldl_remember_props[of "foldl remember [] xs @ [x]" ys] by auto
  then show ?thesis by (simp add: first_occurrences_foldl)
qed

lemma count_list_distinct:
  "distinct xs \<Longrightarrow> count_list xs a = (if a \<in> set xs then 1 else 0)"
  by (induction xs) auto

lemma admit_Path: "admit env fs p = Some i \<Longrightarrow> Path i = p"
  by (auto simp: admit_def split: if_splits sum.splits)

lemma admit_Some_iff:
  "admit env fs p = Some i \<longleftrightarrow>
   \<not> isExcluded env fs p \<and>
   (\<exists>info. os_Stat env p = Inr info \<and> IsRegular info \<and>
      \<not> (maxFileSize fs > 0 \<and> StatSize info > maxFileSize fs) \<and>
      i = \<lparr>Path = p, Size = StatSize info\<rparr>)"
  by (cases "os_Stat env p") (auto simp: admit_def)

lemma map_Path_map_filter_admit:
  "map Path (List.map_filter (admit env fs) xs) = filter (\<lambda>p. admit env fs p \<noteq> None) xs"
  by (induction xs) (auto simp: List.map_filter_def dest: admit_Path)

text \<open>
  A run returns an error exactly when some pattern without \<^verbatim>\<open>**\<close> is rejected by
  \<^verbatim>\<open>filepath.Glob\<close>; the error is the one for the first such pattern.
\<close>

lemma selectLoop_Inl_iff:
  "selectLoop env fs pats st = Inl e \<longleftrightarrow>
   (\<exists>pre p rest err. pats = pre @ p # rest \<and>
      (\<forall>q \<in> set pre. Contains q ''**'' \<or> (\<exists>ms. filepath_Glob env q = Inr ms)) \<and>
      \<not> Contains p ''**'' \<and> filepath_Glob env p = Inl err \<and> e = expand_failed p err)"
proof (induction pats arbitrary: st)
  case Nil
  then show ?case by simp
next
  case (Cons pat pats)
  show ?case
  proof (cases "expandGlob env pat")
    case (Inl err)
    then have simple: "\<not> Contains pat ''**''" and g: "filepath_Glob env pat = Inl err"
      using expandRecursiveGlob_never_fails[of pat env]
      by (auto simp: expandGlob_def split: if_splits sum.splits)
    show ?thesis
    proof
      assume "selectLoop env fs (pat # pats) st = Inl e"
      with Inl have "e = expand_failed pat err" by simp
      with simple g have "pat # pats = [] @ pat # pats \<and>
        (\<forall>q \<in> set []. Contains q ''**'' \<or> (\<exists>ms. filepath_Glob env q = Inr ms)) \<and>
        \<not> Contains pat ''**'' \<and> filepath_Glob env pat = Inl err \<and> e = expand_failed pat err"
        by simp
      then show "\<exists>pre p rest err. pat # pats = pre @ p # rest \<and>
        (\<forall>q \<in> set pre. Contains q ''**'' \<or> (\<exists>ms. filepath_Glob env q = Inr ms)) \<and>
        \<not> Contains p ''**'' \<and> filepath_Glob env p = Inl err \<and> e = expand_failed p err"
        by blast
    next
      assume "\<exists>pre p rest err. pat # pats = pre @ p # rest \<and>
        (\<forall>q \<in> set pre. Contains q ''**'' \<or> (\<exists>ms. filepath_Glob env q = Inr ms)) \<and>
        \<not> Contains p ''**'' \<and> filepath_Glob env p = Inl err \<and> e = expand_failed p err"
      then obtain dn p rest err' where h: "pat # pats = dn @ p # rest"
        "\<forall>q \<in> set dn. Contains q ''**'' \<or> (\<exists>ms. filepath_Glob env q = Inr ms)"
        "\<not> Contains p ''**''" "filepath_Glob env p = Inl err'" "e = expand_failed p err'" by blast
      have "dn = []"
      proof (cases dn)
        case Nil then show ?thesis .
      next
        case (Cons d ds)
        with h(1) have "d = pat" by simp
        with Cons h(2) simple g show ?thesis by auto
      qed
      with h have "p = pat" "err' = err" using g by auto
      with h(5) Inl show "selectLoop env fs (pat # pats) st = Inl e" by simp
    qed
  next
    case (Inr ms)
    then have ok: "Contains pat ''**'' \<or> (\<exists>ms. filepath_Glob env pat = Inr ms)"
      by (auto simp: expandGlob_def split: if_splits sum.splits)
    have step: "selectLoop env fs (pat # pats) st = selectLoop env fs pats (processMatches env fs ms st)"
      using Inr by simp
    show ?thesis unfolding step Cons.IH
    proof
      assume "\<exists>pre p rest err. pats = pre @ p # rest \<and>
        (\<forall>q \<in> set pre. Contains q ''**'' \<or> (\<exists>ms. filepath_Glob env q = Inr ms)) \<and>
        \<not> Contains p ''**'' \<and> filepath_Glob env p = Inl err \<and> e = expand_failed p err"
      then obtain dn p rest err where h: "pats = dn @ p # rest"
        "\<forall>q \<in> set dn. Contains q ''**'' \<or> (\<exists>ms. filepath_Glob env q = Inr ms)"
        "\<not> Contains p ''**''" "filepath_Glob env p = Inl err" "e = expand_failed p err" by blast
      then have "pat # pats = (pat # dn) @ p # rest \<and>
        (\<forall>q \<in> set (pat # dn). Contains q ''**'' \<or> (\<exists>ms. filepath_Glob env q = Inr ms)) \<and>
        \<not> Contains p ''**'' \<and> filepath_Glob env p = Inl err \<and> e = expand_failed p err"
        using ok by simp
      then show "\<exists>pre p rest err. pat # pats = pre @ p # rest \<and>
        (\<forall>q \<in> set pre. Contains q ''**'' \<or> (\<exists>ms. filepath_Glob env q = Inr ms)) \<and>
        \<not> Contains p ''**'' \<and> filepath_Glob env p = Inl err \<and> e = expand_failed p err"
        by blast
    next
      assume "\<exists>pre p rest err. pat # pats = pre @ p # rest \<and>
        (\<forall>q \<in> set pre. Contains q ''**'' \<or> (\<exists>ms. filepath_Glob env q = Inr ms)) \<and>
        \<not> Contains p ''**'' \<and> filepath_Glob env p = Inl err \<and> e = expand_failed p err"
      then obtain dn p rest err where h: "pat # pats = dn @ p # rest"
        "\<forall>q \<in> set dn. Contains q ''**'' \<or> (\<exists>ms. filepath_Glob env q = Inr ms)"
        "\<not> Contains p ''**''" "filepath_Glob env p = Inl err" "e = expand_failed p err" by blast
      have "dn \<noteq> []"
      proof
        assume "dn = []"
        with h(1) have "p = pat" by simp
        with h(3,4) Inr show False by (simp add: expandGlob_def)
      qed
      then obtain ds where ds: "dn = pat # ds" using h(1) by (cases dn) auto
      with h have "pats = ds @ p # rest \<and>
        (\<forall>q \<in> set ds. Contains q ''**'' \<or> (\<exists>ms. filepath_Glob env q = Inr ms)) \<and>
        \<not> Contains p ''**'' \<and> filepath_Glob env p = Inl err \<and> e = expand_failed p err"
        by simp
      then show "\<exists>pre p rest err. pats = pre @ p # rest \<and>
        (\<forall>q \<in> set pre. Contains q ''**'' \<or> (\<exists>ms. filepath_Glob env q = Inr ms)) \<and>
        \<not> Contains p ''**'' \<and> filepath_Glob env p = Inl err \<and> e = expand_failed p err"
        by blast
    qed
  qed
qed

text \<open>
  The example environment, field by field.
\<close>

lemma demo_fields:
  "filepath_Glob demo_env = demo_Glob" "filepath_Abs demo_env = demo_Abs"
  "filepath_Rel demo_env = demo_Rel" "filepath_Match demo_env = demo_Match"
  "filepath_Base demo_env = demo_Base" "filepath_WalkDir demo_env = demo_WalkDir"
  "os_Stat demo_env = demo_Stat"
  by (simp_all add: demo_env_def)

lemma demo_open: 
  "os_Open demo_config_env ''missing.yaml'' = Inl ''no such file or directory''"
  "os_IsNotExist demo_config_env ''no such file or directory''"
  "os_Open demo_config_env ''secret.yaml'' = Inl ''permission denied''"
  "\<not> os_IsNotExist demo_config_env ''permission denied''"
  "os_Open demo_config_env ''dir'' = Inr ''dir''"
  "io_ReadAll demo_config_env ''dir'' = Inl ''is a directory''"
  "os_Open demo_config_env ''bad.yaml'' = Inr ''bad.yaml''"
  "io_ReadAll demo_config_env ''bad.yaml'' = Inr ''{''"
  "yaml_Unmarshal demo_config_env ''{'' DefaultConfig = Inl ''yaml: did not find expected node content''"
  by (simp_all add: demo_config_env_def)

section \<open>Recursive include patterns\<close>

text \<open>
  Claim C1. Let \<open>pattern\<close> be an include pattern that contains \<^verbatim>\<open>**\<close>, let \<open>before\<close> and
  \<open>after\<close> be the text around its first \<^verbatim>\<open>**\<close>, \<open>prefix\<close> the text before without a
  trailing separator and \<open>suffix\<close> the text after without a leading one, and let the walk
  root be \<open>prefix\<close>, or the current directory when \<open>prefix\<close> is empty. Then the expansion
  succeeds, and its result is made of the files the walk of the root visits (never a
  directory, never an entry reported with an error), in walk order, keeping a file if and
  only if the suffix is empty, or its path relative to the root matches the suffix, or its
  base name matches the suffix; each kept file appears as its absolute path.

  The path library is a parameter, and the statement assumes what Go's library
  guarantees on such a walk: \<^verbatim>\<open>filepath.Abs\<close> and (when the suffix is not empty)
  \<^verbatim>\<open>filepath.Rel\<close> succeed on the walked files, and a suffix that matches some name is
  well formed, so that \<^verbatim>\<open>filepath.Match\<close> with it never reports a malformed pattern.
\<close>

theorem expandRecursiveGlob_emits:
  assumes "pattern = before @ ''**'' @ after"
    and "\<forall>u v. pattern = u @ ''**'' @ v \<longrightarrow> length before \<le> length u"
    and "prefix = TrimSuffix before ''/''"
    and "suffix = TrimPrefix after ''/''"
    and "root = (if prefix = '''' then ''.'' else prefix)"
    and "\<forall>path \<in> set (walked_files (filepath_WalkDir env root)). \<exists>a. filepath_Abs env path = Inr a"
    and "suffix \<noteq> '''' \<longrightarrow>
         (\<forall>path \<in> set (walked_files (filepath_WalkDir env root)). \<exists>r. filepath_Rel env root path = Inr r)"
    and "\<forall>n n'. filepath_Match env suffix n = Inr True \<longrightarrow> (\<forall>e. filepath_Match env suffix n' \<noteq> Inl e)"
  shows "expandRecursiveGlob env pattern =
         Inr (map (\<lambda>path. projr (filepath_Abs env path))
               (filter (suffix_accepts env root suffix)
                  (walked_files (filepath_WalkDir env root))))"
proof -
  from Cut_first_occurrence[OF assms(1,2)] have "SplitN2 pattern ''**'' = [before, after]"
    by (simp add: SplitN2_def)
  then have "expandRecursiveGlob env pattern =
     Inr (concat (map (\<lambda>c. snd (walkFn env root suffix c [])) (filepath_WalkDir env root)))"
    using assms(3,4,5) by (simp add: expandRecursiveGlob_def Let_def WalkDir_walkFn)
  then show ?thesis using walk_emits[OF assms(6,7,8)] by simp
qed

theorem expandRecursiveGlob_emits_witness:
  "expandRecursiveGlob demo_env ''**/*.go'' = Inr [''/w/a.go'', ''/w/sub/c.go''] \<and>
   expandRecursiveGlob demo_env ''sub/**/*.go'' = Inr [''/w/sub/c.go'']"
proof -
  have a1: "''**/*.go'' = '''' @ ''**'' @ ''/*.go''" by simp
  have a2: "\<forall>u v. ''**/*.go'' = u @ ''**'' @ v \<longrightarrow> length '''' \<le> length u" by simp
  have a3: "'''' = TrimSuffix '''' ''/''" by code_simp
  have a4: "''*.go'' = TrimPrefix ''/*.go'' ''/''" by code_simp
  have a5: "''.'' = (if '''' = '''' then ''.'' else '''')" by simp
  have a6: "\<forall>path \<in> set (walked_files (filepath_WalkDir demo_env ''.'')).
              \<exists>a. filepath_Abs demo_env path = Inr a"
    by (simp add: demo_fields demo_Abs_def)
  have a7: "''*.go'' \<noteq> '''' \<longrightarrow> (\<forall>path \<in> set (walked_files (filepath_WalkDir demo_env ''.'')).
              \<exists>r. filepath_Rel demo_env ''.'' path = Inr r)"
    by (simp add: demo_fields demo_Rel_def)
  have a8: "\<forall>n n'. filepath_Match demo_env ''*.go'' n = Inr True \<longrightarrow>
              (\<forall>e. filepath_Match demo_env ''*.go'' n' \<noteq> Inl e)"
    by (simp add: demo_fields demo_Match_def)
  have r1: "map (\<lambda>path. projr (filepath_Abs demo_env path))
               (filter (suffix_accepts demo_env ''.'' ''*.go'')
                  (walked_files (filepath_WalkDir demo_env ''.''))) = [''/w/a.go'', ''/w/sub/c.go'']"
    by code_simp
  have b1: "''sub/**/*.go'' = ''sub/'' @ ''**'' @ ''/*.go''" by simp
  have "Cut ''sub/**/*.go'' ''**'' = Some (''sub/'', ''/*.go'')" by code_simp
  then have b2: "\<forall>u v. ''sub/**/*.go'' = u @ ''**'' @ v \<longrightarrow> length ''sub/'' \<le> length u"
    by (rule Cut_is_first)
  have b3: "''sub'' = TrimSuffix ''sub/'' ''/''" by code_simp
  have b5: "''sub'' = (if ''sub'' = '''' then ''.'' else ''sub'')" by simp
  have b6: "\<forall>path \<in> set (walked_files (filepath_WalkDir demo_env ''sub'')).
              \<exists>a. filepath_Abs demo_env path = Inr a"
    by (simp add: demo_fields demo_Abs_def)
  have b7: "''*.go'' \<noteq> '''' \<longrightarrow> (\<forall>path \<in> set (walked_files (filepath_WalkDir demo_env ''sub'')).
              \<exists>r. filepath_Rel demo_env ''sub'' path = Inr r)"
    by (simp add: demo_fields demo_Rel_def demo_WalkDir_def)
  have r2: "map (\<lambda>path. projr (filepath_Abs demo_env path))
               (filter (suffix_accepts demo_env ''sub'' ''*.go'')
                  (walked_files (filepath_WalkDir demo_env ''sub''))) = [''/w/sub/c.go'']"
    by code_simp
  show ?thesis
    using expandRecursiveGlob_emits [OF a1 a2 a3 a4 a5 a6 a7 a8]
          expandRecursiveGlob_emits [OF b1 b2 b3 a4 b5 b6 b7 a8]
    by (simp only: r1 r2)
qed

section \<open>Recursive exclude patterns\<close>

text \<open>
  Claim C2. Let \<open>pattern\<close> be an exclude pattern that contains \<^verbatim>\<open>**\<close>, split at its first
  \<^verbatim>\<open>**\<close> and trimmed as for include patterns. A path is excluded by it if and only if the
  prefix, when not empty, occurs somewhere in the path as a plain substring, and the
  suffix, when not empty, matches the base name of the path. With an empty suffix the
  substring test decides alone, and with both empty every path is excluded. The witness
  shows \<^verbatim>\<open>vendor/**\<close> excluding \<^verbatim>\<open>/foo/abcvendor/x\<close>.
\<close>

theorem matchesRecursiveExclude_iff:
  assumes "pattern = before @ ''**'' @ after"
    and "\<forall>u v. pattern = u @ ''**'' @ v \<longrightarrow> length before \<le> length u"
    and "prefix = TrimSuffix before ''/''"
    and "suffix = TrimPrefix after ''/''"
  shows "matchesRecursiveExclude env path pattern \<longleftrightarrow>
         (prefix \<noteq> '''' \<longrightarrow> (\<exists>u v. path = u @ prefix @ v)) \<and>
         (suffix \<noteq> '''' \<longrightarrow> filepath_Match env suffix (filepath_Base env path) = Inr True)"
  using matchesRecursiveExclude_Cut[OF Cut_first_occurrence[OF assms(1,2)], of env path] assms(3,4)
  by (auto simp: Contains_iff)

theorem matchesRecursiveExclude_iff_witness:
  "matchesRecursiveExclude demo_env ''/foo/abcvendor/x'' ''vendor/**'' \<and>
   matchesRecursiveExclude demo_env ''/w/sub/c.go'' ''sub/**/*.go''"
proof -
  have a1: "''vendor/**'' = ''vendor/'' @ ''**'' @ ''''" by simp
  have "Cut ''vendor/**'' ''**'' = Some (''vendor/'', '''')" by code_simp
  then have a2: "\<forall>u v. ''vendor/**'' = u @ ''**'' @ v \<longrightarrow> length ''vendor/'' \<le> length u"
    by (rule Cut_is_first)
  have a3: "''vendor'' = TrimSuffix ''vendor/'' ''/''" by code_simp
  have a4: "'''' = TrimPrefix '''' ''/''" by code_simp
  have "''/foo/abcvendor/x'' = ''/foo/abc'' @ ''vendor'' @ ''/x''" by simp
  then have a5: "\<exists>u v. ''/foo/abcvendor/x'' = u @ ''vendor'' @ v" by blast
  have 1: "matchesRecursiveExclude demo_env ''/foo/abcvendor/x'' ''vendor/**''"
    using matchesRecursiveExclude_iff [OF a1 a2 a3 a4, of demo_env "''/foo/abcvendor/x''"] a5
    by simp
  have b1: "''sub/**/*.go'' = ''sub/'' @ ''**'' @ ''/*.go''" by simp
  have "Cut ''sub/**/*.go'' ''**'' = Some (''sub/'', ''/*.go'')" by code_simp
  then have b2: "\<forall>u v. ''sub/**/*.go'' = u @ ''**'' @ v \<longrightarrow> length ''sub/'' \<le> length u"
    by (rule Cut_is_first)
  have b3: "''sub'' = TrimSuffix ''sub/'' ''/''" by code_simp
  have b4: "''*.go'' = TrimPrefix ''/*.go'' ''/''" by code_simp
  have "''/w/sub/c.go'' = ''/w/'' @ ''sub'' @ ''/c.go''" by simp
  then have b5: "\<exists>u v. ''/w/sub/c.go'' = u @ ''sub'' @ v" by blast
  have b6: "filepath_Match demo_env ''*.go'' (filepath_Base demo_env ''/w/sub/c.go'') = Inr True"
    by code_simp
  have 2: "matchesRecursiveExclude demo_env ''/w/sub/c.go'' ''sub/**/*.go''"
    using matchesRecursiveExclude_iff [OF b1 b2 b3 b4, of demo_env "''/w/sub/c.go''"] b5 b6
    by simp
  show ?thesis using 1 2 by simp
qed

section \<open>When selection fails\<close>

text \<open>
  Claim C3. \<^verbatim>\<open>SelectFiles\<close> returns an error if and only if \<^verbatim>\<open>filepath.Glob\<close> rejects one
  of the include patterns that has no \<^verbatim>\<open>**\<close> (the only error \<^verbatim>\<open>filepath.Glob\<close> returns is
  the one for a malformed pattern). The result is then the error alone, without files.
  Nothing else decides it: two runs with the same patterns and the same
  \<^verbatim>\<open>filepath.Glob\<close> return the same errors, whatever \<^verbatim>\<open>os.Stat\<close>, the walk, the other
  path functions, the exclude patterns and the size limit are. So a failed stat, a
  candidate that is not a regular file or is too large, and an error on an entry of a
  recursive walk never surface.
\<close>

theorem SelectFiles_error_iff:
  "((\<exists>e. SelectFiles env fs = Inl e) \<longleftrightarrow>
      (\<exists>p \<in> set (effective_patterns fs).
          \<not> Contains p ''**'' \<and> (\<exists>err. filepath_Glob env p = Inl err))) \<and>
   (\<forall>env' fs'. filepath_Glob env' = filepath_Glob env \<and> patterns fs' = patterns fs \<longrightarrow>
      (\<forall>e. SelectFiles env' fs' = Inl e \<longleftrightarrow> SelectFiles env fs = Inl e))"
proof
  show "(\<exists>e. SelectFiles env fs = Inl e) \<longleftrightarrow>
      (\<exists>p \<in> set (effective_patterns fs).
          \<not> Contains p ''**'' \<and> (\<exists>err. filepath_Glob env p = Inl err))"
  proof
    assume "\<exists>e. SelectFiles env fs = Inl e"
    then obtain e where "selectLoop env fs (effective_patterns fs) ([], \<lambda>p. False) = Inl e"
      by (auto simp: SelectFiles_def)
    then obtain pre p rest err where "effective_patterns fs = pre @ p # rest"
      "\<not> Contains p ''**''" "filepath_Glob env p = Inl err"
      unfolding selectLoop_Inl_iff by blast
    then show "\<exists>p \<in> set (effective_patterns fs).
          \<not> Contains p ''**'' \<and> (\<exists>err. filepath_Glob env p = Inl err)" by auto
  next
    assume "\<exists>p \<in> set (effective_patterns fs).
          \<not> Contains p ''**'' \<and> (\<exists>err. filepath_Glob env p = Inl err)"
    then obtain p err where p: "p \<in> set (effective_patterns fs)" "expandGlob env p = Inl err"
      by (auto simp: expandGlob_def)
    have "p \<in> set pats \<Longrightarrow> \<exists>e. selectLoop env fs pats st = Inl e" for pats st
    proof (induction pats arbitrary: st)
      case Nil
      then show ?case by simp
    next
      case (Cons q qs)
      show ?case
      proof (cases "expandGlob env q")
        case (Inl e)
        then show ?thesis by simp
      next
        case (Inr ms)
        with p(2) Cons.prems have "p \<in> set qs" by auto
        from Cons.IH[OF this, of "processMatches env fs ms st"] Inr show ?thesis by simp
      qed
    qed
    with p(1) show "\<exists>e. SelectFiles env fs = Inl e" by (simp add: SelectFiles_def)
  qed
next
  show "\<forall>env' fs'. filepath_Glob env' = filepath_Glob env \<and> patterns fs' = patterns fs \<longrightarrow>
      (\<forall>e. SelectFiles env' fs' = Inl e \<longleftrightarrow> SelectFiles env fs = Inl e)"
    by (simp add: SelectFiles_def selectLoop_Inl_iff effective_patterns_def)
qed

theorem SelectFiles_error_iff_witness:
  "(\<exists>e. SelectFiles demo_env (New [''*.go'', ''[''] [] 0) = Inl e) \<and>
   \<not> (\<exists>e. SelectFiles (demo_env\<lparr>os_Stat := \<lambda>p. Inl ''stat: permission denied''\<rparr>)
             (New [''sub/c.go'', ''missing/**'', ''**/[''] [] 1) = Inl e)"
proof -
  have 1: "\<exists>p \<in> set (effective_patterns (New [''*.go'', ''[''] [] 0)).
             \<not> Contains p ''**'' \<and> (\<exists>err. filepath_Glob demo_env p = Inl err)"
    by (simp add: effective_patterns_def New_def demo_fields demo_Glob_def)
  have 2: "\<not> (\<exists>p \<in> set (effective_patterns (New [''sub/c.go'', ''missing/**'', ''**/[''] [] 1)).
             \<not> Contains p ''**'' \<and>
             (\<exists>err. filepath_Glob (demo_env\<lparr>os_Stat := \<lambda>p. Inl ''stat: permission denied''\<rparr>) p = Inl err))"
    by (simp add: effective_patterns_def New_def demo_fields demo_Glob_def)
  show ?thesis
    using SelectFiles_error_iff [of demo_env "New [''*.go'', ''[''] [] 0"]
          SelectFiles_error_iff [of "demo_env\<lparr>os_Stat := \<lambda>p. Inl ''stat: permission denied''\<rparr>"
                                   "New [''sub/c.go'', ''missing/**'', ''**/[''] [] 1"]
          1 2
    by blast
qed

text \<open>
  Claim C4, as the specification states it, says that one pattern failing to parse never
  aborts the run. It does: with the patterns \<^verbatim>\<open>[\<close> and \<^verbatim>\<open>*\<close> the run returns the error for
  \<^verbatim>\<open>[\<close> and no files, although \<^verbatim>\<open>*\<close> alone selects two files.
\<close>

theorem parse_failure_aborts_counterexample:
  "SelectFiles demo_env (New [''['', ''*''] [] 0) =
     Inl (expand_failed ''['' ''syntax error in pattern'') \<and>
   SelectFiles demo_env (New [''*''] [] 0) =
     Inr [\<lparr>Path = ''/w/a.go'', Size = 100\<rparr>, \<lparr>Path = ''/w/b.txt'', Size = 50\<rparr>]"
  by code_simp

text \<open>
  Claim C4, amended. \<^verbatim>\<open>SelectFiles\<close> fails only with the error for a malformed pattern
  without \<^verbatim>\<open>**\<close>, and it fails exactly then: the run stops at the first such pattern, the
  patterns after it are not expanded, and the error names that pattern and wraps the
  library's error. A pattern with \<^verbatim>\<open>**\<close> never stops the run, malformed or not.
\<close>

theorem SelectFiles_aborts_at_first_malformed:
  "SelectFiles env fs = Inl e \<longleftrightarrow>
   (\<exists>pre p rest err. effective_patterns fs = pre @ p # rest \<and>
      (\<forall>q \<in> set pre. Contains q ''**'' \<or> (\<exists>ms. filepath_Glob env q = Inr ms)) \<and>
      \<not> Contains p ''**'' \<and> filepath_Glob env p = Inl err \<and> e = expand_failed p err)"
  by (simp add: SelectFiles_def selectLoop_Inl_iff)

theorem SelectFiles_aborts_at_first_malformed_witness:
  "SelectFiles demo_env (New [''*'', ''**/['', ''['', ''**/*.go''] [] 0) =
     Inl (expand_failed ''['' ''syntax error in pattern'')"
proof -
  have "effective_patterns (New [''*'', ''**/['', ''['', ''**/*.go''] [] 0) =
          [''*'', ''**/[''] @ ''['' # [''**/*.go''] \<and>
        (\<forall>q \<in> set [''*'', ''**/['']. Contains q ''**'' \<or> (\<exists>ms. filepath_Glob demo_env q = Inr ms)) \<and>
        \<not> Contains ''['' ''**'' \<and> filepath_Glob demo_env ''['' = Inl ''syntax error in pattern'' \<and>
        expand_failed ''['' ''syntax error in pattern'' = expand_failed ''['' ''syntax error in pattern''"
    by (simp add: effective_patterns_def New_def demo_fields demo_Glob_def)
  then have "\<exists>pre p rest err.
        effective_patterns (New [''*'', ''**/['', ''['', ''**/*.go''] [] 0) = pre @ p # rest \<and>
        (\<forall>q \<in> set pre. Contains q ''**'' \<or> (\<exists>ms. filepath_Glob demo_env q = Inr ms)) \<and>
        \<not> Contains p ''**'' \<and> filepath_Glob demo_env p = Inl err \<and>
        expand_failed ''['' ''syntax error in pattern'' = expand_failed p err"
    by blast
  then show ?thesis
    using SelectFiles_aborts_at_first_malformed
            [of demo_env "New [''*'', ''**/['', ''['', ''**/*.go''] [] 0"
                "expand_failed ''['' ''syntax error in pattern''"]
    by blast
qed

section \<open>Duplicates\<close>

text \<open>
  Claim C5, as the specification states it, says that a path matched by two include
  patterns appears exactly once in the result. A path that both \<^verbatim>\<open>sub/*.go\<close> and
  \<^verbatim>\<open>**/*.go\<close> match does not appear at all when it is larger than the size limit.
\<close>

theorem dedup_exactly_once_counterexample:
  "''/w/sub/c.go'' \<in> set (candidates demo_env [''sub/*.go'']) \<and>
   ''/w/sub/c.go'' \<in> set (candidates demo_env [''**/*.go'']) \<and>
   SelectFiles demo_env (New [''sub/*.go'', ''**/*.go''] [] 1048576) =
     Inr [\<lparr>Path = ''/w/a.go'', Size = 100\<rparr>]"
  by code_simp

text \<open>
  Claim C5, amended. The paths of the result are the first occurrences of the candidates
  (the matches of all patterns, accumulated in pattern order) that pass the exclusion,
  stat, regular-file and size checks, in order of first appearance. So no path appears
  twice; a path appears exactly once when it is a candidate that passes the checks, and
  not at all otherwise; and it stands right after the admitted paths whose first match
  came before its own.
\<close>

theorem SelectFiles_dedup:
  assumes "SelectFiles env fs = Inr out"
  shows "map Path out = filter (\<lambda>p. admit env fs p \<noteq> None)
                          (first_occurrences (candidates env (effective_patterns fs))) \<and>
         distinct (map Path out) \<and>
         (\<forall>P. count_list (map Path out) P =
            (if P \<in> set (candidates env (effective_patterns fs)) \<and> admit env fs P \<noteq> None
             then 1 else 0)) \<and>
         (\<forall>xs P ys. candidates env (effective_patterns fs) = xs @ P # ys \<and> P \<notin> set xs \<and>
             admit env fs P \<noteq> None \<longrightarrow>
             (\<exists>zs. map Path out =
                filter (\<lambda>p. admit env fs p \<noteq> None) (first_occurrences xs) @ P # zs))"
proof -
  let ?c = "candidates env (effective_patterns fs)"
  let ?ok = "\<lambda>p. admit env fs p \<noteq> None"
  have eq: "map Path out = filter ?ok (first_occurrences ?c)"
    using SelectFiles_result[OF assms] map_Path_map_filter_admit by simp
  have d: "distinct (map Path out)"
    unfolding eq using distinct_first_occurrences by (rule distinct_filter)
  have s: "set (map Path out) = {p \<in> set ?c. ?ok p}"
    unfolding eq by (auto simp: set_first_occurrences)
  have c: "\<forall>P. count_list (map Path out) P = (if P \<in> set ?c \<and> ?ok P then 1 else 0)"
    using count_list_distinct[OF d] s by auto
  have pos: "\<forall>xs P ys. ?c = xs @ P # ys \<and> P \<notin> set xs \<and> ?ok P \<longrightarrow>
             (\<exists>zs. map Path out = filter ?ok (first_occurrences xs) @ P # zs)"
  proof (intro allI impI)
    fix xs P ys assume h: "?c = xs @ P # ys \<and> P \<notin> set xs \<and> ?ok P"
    then obtain zs where "first_occurrences ?c = first_occurrences xs @ P # zs"
      using first_occurrences_at_first_match[of P xs ys] by auto
    then have "map Path out = filter ?ok (first_occurrences xs) @ P # filter ?ok zs"
      using eq h by simp
    then show "\<exists>zs. map Path out = filter ?ok (first_occurrences xs) @ P # zs" by blast
  qed
  show ?thesis using eq d c pos by blast
qed

theorem SelectFiles_dedup_witness:
  "SelectFiles demo_env (New [''sub/*.go'', ''**/*.go'', ''*''] [] 0) =
     Inr [\<lparr>Path = ''/w/sub/c.go'', Size = 4000000\<rparr>, \<lparr>Path = ''/w/a.go'', Size = 100\<rparr>,
          \<lparr>Path = ''/w/b.txt'', Size = 50\<rparr>] \<and>
   candidates demo_env (effective_patterns (New [''sub/*.go'', ''**/*.go'', ''*''] [] 0)) =
     [''/w/sub/c.go'', ''/w/a.go'', ''/w/sub/c.go'', ''/w/a.go'', ''/w/b.txt'', ''/w/sub''] \<and>
   count_list [''/w/sub/c.go'', ''/w/a.go'', ''/w/b.txt''] ''/w/sub/c.go'' = 1 \<and>
   count_list [''/w/sub/c.go'', ''/w/a.go'', ''/w/b.txt''] ''/w/sub'' = 0"
proof -
  let ?fs = "New [''sub/*.go'', ''**/*.go'', ''*''] [] 0"
  let ?out = "[\<lparr>Path = ''/w/sub/c.go'', Size = 4000000\<rparr>, \<lparr>Path = ''/w/a.go'', Size = 100\<rparr>,
          \<lparr>Path = ''/w/b.txt'', Size = 50\<rparr>]"
  have run: "SelectFiles demo_env ?fs = Inr ?out" by code_simp
  have c: "candidates demo_env (effective_patterns ?fs) =
     [''/w/sub/c.go'', ''/w/a.go'', ''/w/sub/c.go'', ''/w/a.go'', ''/w/b.txt'', ''/w/sub'']"
    by code_simp
  have a1: "admit demo_env ?fs ''/w/sub/c.go'' \<noteq> None" by code_simp
  have a2: "\<not> admit demo_env ?fs ''/w/sub'' \<noteq> None" by code_simp
  from SelectFiles_dedup [OF run]
  have cnt: "\<forall>P. count_list (map Path ?out) P =
            (if P \<in> set (candidates demo_env (effective_patterns ?fs)) \<and> admit demo_env ?fs P \<noteq> None
             then 1 else 0)" by blast
  have 1: "count_list (map Path ?out) ''/w/sub/c.go'' = 1"
    using cnt a1 c by simp
  have 2: "count_list (map Path ?out) ''/w/sub'' = 0"
    using cnt a2 by simp
  show ?thesis using run c 1 2 by simp
qed

section \<open>Exclusion takes precedence\<close>

text \<open>
  Claim C6. A path that matches at least one exclude pattern of the selector, in the sense
  of section 4.1.2 of the specification, is never among the paths \<^verbatim>\<open>SelectFiles\<close> returns,
  whichever include patterns match it.
\<close>

theorem SelectFiles_exclusion_precedence:
  assumes "SelectFiles env fs = Inr out"
    and "exclude \<in> set (excludes fs)"
    and "exclude_matches env exclude path"
  shows "path \<notin> Path ` set out"
proof -
  from assms(2,3) have "isExcluded env fs path" using isExcluded_iff by blast
  then have "admit env fs path = None" by (simp add: admit_def)
  moreover have "set (map Path out) \<subseteq> {p. admit env fs p \<noteq> None}"
    using SelectFiles_result[OF assms(1)] map_Path_map_filter_admit[of env fs] by auto
  ultimately show ?thesis by auto
qed

theorem SelectFiles_exclusion_precedence_witness:
  "SelectFiles demo_env (New [''*''] [''*.txt''] 0) = Inr [\<lparr>Path = ''/w/a.go'', Size = 100\<rparr>] \<and>
   ''/w/b.txt'' \<in> set (candidates demo_env [''*'']) \<and>
   exclude_matches demo_env ''*.txt'' ''/w/b.txt'' \<and>
   ''/w/b.txt'' \<notin> Path ` set [\<lparr>Path = ''/w/a.go'', Size = 100\<rparr>]"
proof -
  have run: "SelectFiles demo_env (New [''*''] [''*.txt''] 0) = Inr [\<lparr>Path = ''/w/a.go'', Size = 100\<rparr>]"
    by code_simp
  have e: "''*.txt'' \<in> set (excludes (New [''*''] [''*.txt''] 0))" by (simp add: New_def)
  have m: "exclude_matches demo_env ''*.txt'' ''/w/b.txt''" by code_simp
  have c: "''/w/b.txt'' \<in> set (candidates demo_env [''*''])" by code_simp
  show ?thesis
    using SelectFiles_exclusion_precedence [OF run e m] run m c by blast
qed

section \<open>The size filter\<close>

text \<open>
  Claim C7. With a positive \<open>maxFileSize\<close>, no returned entry is larger than it. Every
  returned entry carries the size \<^verbatim>\<open>os.Stat\<close> reports for its path. With a \<open>maxFileSize\<close> of
  zero or less, size drops nothing: every candidate that is not excluded and that stats as
  a regular file is returned, whatever its size.
\<close>

theorem SelectFiles_size_filter:
  assumes "SelectFiles env fs = Inr out"
  shows "(maxFileSize fs > 0 \<longrightarrow> (\<forall>f \<in> set out. Size f \<le> maxFileSize fs)) \<and>
         (\<forall>f \<in> set out. \<exists>info. os_Stat env (Path f) = Inr info \<and> Size f = StatSize info) \<and>
         (maxFileSize fs \<le> 0 \<longrightarrow>
            (\<forall>p \<in> set (candidates env (effective_patterns fs)). \<forall>info.
               \<not> isExcluded env fs p \<and> os_Stat env p = Inr info \<and> IsRegular info \<longrightarrow>
               \<lparr>Path = p, Size = StatSize info\<rparr> \<in> set out))"
proof -
  let ?c = "first_occurrences (candidates env (effective_patterns fs))"
  have out: "set out = {i. \<exists>p \<in> set ?c. admit env fs p = Some i}"
    using SelectFiles_result[OF assms] by (simp add: set_map_filter)
  have a: "maxFileSize fs > 0 \<longrightarrow> (\<forall>f \<in> set out. Size f \<le> maxFileSize fs)"
    unfolding out admit_Some_iff by auto
  have b: "\<forall>f \<in> set out. \<exists>info. os_Stat env (Path f) = Inr info \<and> Size f = StatSize info"
    unfolding out admit_Some_iff by auto
  have c: "maxFileSize fs \<le> 0 \<longrightarrow>
            (\<forall>p \<in> set (candidates env (effective_patterns fs)). \<forall>info.
               \<not> isExcluded env fs p \<and> os_Stat env p = Inr info \<and> IsRegular info \<longrightarrow>
               \<lparr>Path = p, Size = StatSize info\<rparr> \<in> set out)"
    unfolding out admit_Some_iff by (auto simp: set_first_occurrences)
  show ?thesis using a b c by blast
qed

theorem SelectFiles_size_filter_witness:
  "SelectFiles demo_env (New [''**''] [] 1000) =
     Inr [\<lparr>Path = ''/w/a.go'', Size = 100\<rparr>, \<lparr>Path = ''/w/b.txt'', Size = 50\<rparr>] \<and>
   Size \<lparr>Path = ''/w/a.go'', Size = 100\<rparr> \<le> 1000 \<and>
   Size \<lparr>Path = ''/w/b.txt'', Size = 50\<rparr> \<le> 1000 \<and>
   SelectFiles demo_env (New [''**''] [] 0) =
     Inr [\<lparr>Path = ''/w/a.go'', Size = 100\<rparr>, \<lparr>Path = ''/w/b.txt'', Size = 50\<rparr>,
          \<lparr>Path = ''/w/sub/c.go'', Size = 4000000\<rparr>] \<and>
   \<lparr>Path = ''/w/sub/c.go'', Size = 4000000\<rparr> \<in>
     set [\<lparr>Path = ''/w/a.go'', Size = 100\<rparr>, \<lparr>Path = ''/w/b.txt'', Size = 50\<rparr>,
          \<lparr>Path = ''/w/sub/c.go'', Size = 4000000\<rparr>]"
proof -
  have run1: "SelectFiles demo_env (New [''**''] [] 1000) =
     Inr [\<lparr>Path = ''/w/a.go'', Size = 100\<rparr>, \<lparr>Path = ''/w/b.txt'', Size = 50\<rparr>]" by code_simp
  have run0: "SelectFiles demo_env (New [''**''] [] 0) =
     Inr [\<lparr>Path = ''/w/a.go'', Size = 100\<rparr>, \<lparr>Path = ''/w/b.txt'', Size = 50\<rparr>,
          \<lparr>Path = ''/w/sub/c.go'', Size = 4000000\<rparr>]" by code_simp
  have pos: "maxFileSize (New [''**''] [] 1000) > 0" by (simp add: New_def)
  have nonpos: "maxFileSize (New [''**''] [] 0) \<le> 0" by (simp add: New_def)
  have c: "''/w/sub/c.go'' \<in> set (candidates demo_env (effective_patterns (New [''**''] [] 0)))"
    by code_simp
  have s: "\<not> isExcluded demo_env (New [''**''] [] 0) ''/w/sub/c.go'' \<and>
           os_Stat demo_env ''/w/sub/c.go'' = Inr \<lparr>IsRegular = True, StatSize = 4000000\<rparr> \<and>
           IsRegular \<lparr>IsRegular = True, StatSize = 4000000\<rparr>"
    by code_simp
  have 1: "Size \<lparr>Path = ''/w/a.go'', Size = 100\<rparr> \<le> 1000 \<and>
           Size \<lparr>Path = ''/w/b.txt'', Size = 50\<rparr> \<le> 1000"
    using SelectFiles_size_filter [OF run1] pos by (simp add: New_def)
  have 2: "\<lparr>Path = ''/w/sub/c.go'', Size = 4000000\<rparr> \<in>
     set [\<lparr>Path = ''/w/a.go'', Size = 100\<rparr>, \<lparr>Path = ''/w/b.txt'', Size = 50\<rparr>,
          \<lparr>Path = ''/w/sub/c.go'', Size = 4000000\<rparr>]"
    using SelectFiles_size_filter [OF run0] nonpos c s by fastforce
  show ?thesis using run1 run0 1 2 by blast
qed

section \<open>Selection: the default include pattern\<close>

text \<open>
  Claim C8. \<^verbatim>\<open>SelectFiles\<close> with no include pattern returns what it returns with the
  single include pattern \<^verbatim>\<open>*\<close>, for the same exclude patterns and the same maximum file
  size, in every environment: the same error or the same files in the same order.
\<close>

theorem SelectFiles_empty_include:
  "SelectFiles env (New [] excl maxSize) = SelectFiles env (New [''*''] excl maxSize)"
proof -
  have p: "effective_patterns (New [] excl maxSize) = effective_patterns (New [''*''] excl maxSize)"
    by (simp add: effective_patterns_def New_def)
  have "\<And>ps st. selectLoop env (New [] excl maxSize) ps st = selectLoop env (New [''*''] excl maxSize) ps st"
  proof -
    fix ps st
    have pm: "\<And>ms st. processMatches env (New [] excl maxSize) ms st = processMatches env (New [''*''] excl maxSize) ms st"
    proof -
      fix ms st show "processMatches env (New [] excl maxSize) ms st = processMatches env (New [''*''] excl maxSize) ms st"
        by (induction ms arbitrary: st) (auto simp: New_def isExcluded_def Let_def split: sum.splits)
    qed
    show "selectLoop env (New [] excl maxSize) ps st = selectLoop env (New [''*''] excl maxSize) ps st"
      by (induction ps arbitrary: st) (auto simp: pm split: sum.splits)
  qed
  then show ?thesis by (simp add: SelectFiles_def p)
qed

section \<open>Configuration: loading\<close>

text \<open>
  Claim C9. \<^verbatim>\<open>LoadConfig\<close> returns the default configuration, and no error, when opening
  the path fails because no file exists there. When opening fails for another reason, when
  reading the opened file fails, or when the data does not parse as YAML, it returns an
  error and no configuration; the error's text names the step that failed (open, read or
  parse) followed by the library's own message. When all three steps succeed it returns
  the parsed configuration.
\<close>

theorem LoadConfig_outcomes:
  "(\<forall>err. os_Open env path = Inl err \<and> os_IsNotExist env err \<longrightarrow>
       LoadConfig env path = Inr DefaultConfig) \<and>
   (\<forall>err. os_Open env path = Inl err \<and> \<not> os_IsNotExist env err \<longrightarrow>
       LoadConfig env path = Inl (Errorf ''failed to open config file'' err)) \<and>
   (\<forall>file err. os_Open env path = Inr file \<and> io_ReadAll env file = Inl err \<longrightarrow>
       LoadConfig env path = Inl (Errorf ''failed to read config file'' err)) \<and>
   (\<forall>file data err. os_Open env path = Inr file \<and> io_ReadAll env file = Inr data \<and>
        yaml_Unmarshal env data DefaultConfig = Inl err \<longrightarrow>
       LoadConfig env path = Inl (Errorf ''failed to parse config file'' err)) \<and>
   (\<forall>file data c. os_Open env path = Inr file \<and> io_ReadAll env file = Inr data \<and>
        yaml_Unmarshal env data DefaultConfig = Inr c \<longrightarrow> LoadConfig env path = Inr c)"
  by (simp add: LoadConfig_def)

theorem LoadConfig_outcomes_witness:
  "LoadConfig demo_config_env ''missing.yaml'' = Inr DefaultConfig \<and>
   LoadConfig demo_config_env ''secret.yaml'' = Inl (Errorf ''failed to open config file'' ''permission denied'') \<and>
   LoadConfig demo_config_env ''dir'' = Inl (Errorf ''failed to read config file'' ''is a directory'') \<and>
   LoadConfig demo_config_env ''bad.yaml'' =
     Inl (Errorf ''failed to parse config file'' ''yaml: did not find expected node content'') \<and>
   error_text (Errorf ''failed to open config file'' ''permission denied'') =
     ''failed to open config file: permission denied''"
  using LoadConfig_outcomes [of demo_config_env "''missing.yaml''"]
        LoadConfig_outcomes [of demo_config_env "''secret.yaml''"]
        LoadConfig_outcomes [of demo_config_env "''dir''"]
        LoadConfig_outcomes [of demo_config_env "''bad.yaml''"]
  by (simp add: demo_open)

section \<open>Configuration: defaults and merging\<close>

text \<open>
  Claim C10. The default configuration carries the exclude patterns \<^verbatim>\<open>vendor/**\<close>,
  \<^verbatim>\<open>node_modules/**\<close> and \<^verbatim>\<open>.git/**\<close> and a maximum file size of 1,048,576 bytes.
  \<^verbatim>\<open>Merge\<close> appends the supplied files and exclude patterns to the existing lists, and
  overwrites the prompt and the output only with a non-empty value and the maximum file
  size only with a strictly positive one. So every exclude pattern present before a merge
  is present after it, the built-in ones included, and a merge with empty lists, empty
  strings and a non-positive size leaves the configuration as it was.
\<close>

theorem Merge_frame:
  "DefaultConfig = \<lparr>Files = [], Exclude = [''vendor/**'', ''node_modules/**'', ''.git/**''],
                     Prompt = '''', MaxFileSize = 1048576, Output = ''''\<rparr> \<and>
   Files (Merge c files exclude prompt outp maxSize) = Files c @ files \<and>
   Exclude (Merge c files exclude prompt outp maxSize) = Exclude c @ exclude \<and>
   Prompt (Merge c files exclude prompt outp maxSize) = (if prompt \<noteq> '''' then prompt else Prompt c) \<and>
   Output (Merge c files exclude prompt outp maxSize) = (if outp \<noteq> '''' then outp else Output c) \<and>
   MaxFileSize (Merge c files exclude prompt outp maxSize) =
     (if maxSize > 0 then maxSize else MaxFileSize c) \<and>
   (\<forall>e \<in> set (Exclude c). e \<in> set (Exclude (Merge c files exclude prompt outp maxSize))) \<and>
   (\<forall>e \<in> {''vendor/**'', ''node_modules/**'', ''.git/**''}.
      e \<in> set (Exclude (Merge DefaultConfig files exclude prompt outp maxSize))) \<and>
   (maxSize \<le> 0 \<longrightarrow> Merge c [] [] '''' '''' maxSize = c)"
  by (simp add: Merge_def DefaultConfig_def Let_def)

theorem Merge_frame_witness:
  "Merge DefaultConfig [''*.go''] [''*_test.go''] ''review'' '''' 0 =
     \<lparr>Files = [''*.go''],
      Exclude = [''vendor/**'', ''node_modules/**'', ''.git/**'', ''*_test.go''],
      Prompt = ''review'', MaxFileSize = 1048576, Output = ''''\<rparr> \<and>
   ''vendor/**'' \<in> set (Exclude (Merge DefaultConfig [''*.go''] [''*_test.go''] ''review'' '''' 0)) \<and>
   (-1::int) \<le> 0 \<and> Merge DefaultConfig [] [] '''' '''' (-1) = DefaultConfig"
proof -
  note m = Merge_frame [where c = DefaultConfig and files = "[''*.go'']" and exclude = "[''*_test.go'']"
      and prompt = "''review''" and outp = "''''" and maxSize = 0]
  note n = Merge_frame [where c = DefaultConfig and files = "[]" and exclude = "[]"
      and prompt = "''''" and outp = "''''" and maxSize = "-1"]
  have 1: "Merge DefaultConfig [''*.go''] [''*_test.go''] ''review'' '''' 0 =
     \<lparr>Files = [''*.go''],
      Exclude = [''vendor/**'', ''node_modules/**'', ''.git/**'', ''*_test.go''],
      Prompt = ''review'', MaxFileSize = 1048576, Output = ''''\<rparr>"
    using m by (intro Config.equality) (simp_all add: DefaultConfig_def)
  have 2: "''vendor/**'' \<in> set (Exclude (Merge DefaultConfig [''*.go''] [''*_test.go''] ''review'' '''' 0))"
    using m by (simp add: DefaultConfig_def)
  have 3: "Merge DefaultConfig [] [] '''' '''' (-1) = DefaultConfig"
    using n by simp
  show ?thesis using 1 2 3 by simp
qed

end
